theory Spec2Isabelle
  imports Main "HOL-Library.Word" "HOL-Library.Multiset"
begin

section \<open>Data model of photo.go\<close>

text \<open>
  Go's \<open>int\<close> is taken at its 64-bit width (the width on amd64 and arm64): \<open>++\<close> and
  \<open>--\<close> wrap around, \<open>sint\<close> reads the signed value. Go strings are byte strings,
  as \<open>string\<close> is here.
\<close>

type_synonym goint = "64 word"

text \<open>The size constants of the source (lines 15-24) that the code uses.\<close>

definition SizeThumbnail :: string where
  "SizeThumbnail = ''t''"

definition SizeMedium500 :: string where
  "SizeMedium500 = ''-''"

definition SizeLarge :: string where
  "SizeLarge = ''b''"

record Photo =
  ID :: string
  Owner :: string
  Secret :: string
  Server :: string
  Farm :: string
  Title :: string
  IsPublic :: string
  IsFriend :: string
  IsFamily :: string
  Thumbnail_T :: string
  Large_T :: string

record SearchResponse =
  Page :: string
  Pages :: string
  PerPage :: string
  Total :: string
  Photos :: "Photo list"

record Image =
  ID :: string
  Title :: string
  Thumbnail :: string
  Large :: string
  UpVotes :: goint
  DownVotes :: goint

text \<open>
  An \<open>*Image\<close> is an address into an explicit heap of images. The heap is a list and an
  address is an index into it; allocation appends. An address outside the heap stands for
  \<open>nil\<close>: dereferencing it is the run-time panic of Go.
\<close>

type_synonym ptr = nat

type_synonym heap = "Image list"

record PuppiesResponse =
  Page :: goint
  Pages :: goint
  PerPage :: goint
  Total :: goint
  Images :: "ptr list"

record DBVote =
  id' :: goint
  puppy_id :: goint
  up_votes :: goint
  down_votes :: goint

text \<open>
  How a call can end without returning: a nil-pointer panic, or \<open>log.Fatal\<close>, which
  exits the process.
\<close>

datatype failure = NilPointer | Fatal

definition deref :: "heap \<Rightarrow> ptr \<Rightarrow> Image option" where
  "deref h p = (if p < length h then Some (h ! p) else None)"

section \<open>The library functions the source calls\<close>

text \<open>\<open>strings.Join\<close>, \<open>strings.Repeat\<close> for a count that is a length, and
  \<open>strings.Split\<close> with the empty separator, which explodes a string into its
  characters (one byte each for the ASCII text it is applied to here).\<close>

fun Join :: "string list \<Rightarrow> string \<Rightarrow> string" where
  "Join [] sep = []"
| "Join [a] sep = a"
| "Join (a # b # bs) sep = a @ sep @ Join (b # bs) sep"

definition Repeat :: "string \<Rightarrow> nat \<Rightarrow> string" where
  "Repeat s n = concat (replicate n s)"

definition Split_empty_sep :: "string \<Rightarrow> string list" where
  "Split_empty_sep s = map (\<lambda>c. [c]) s"

text \<open>
  \<open>fmt.Sprintf\<close> for string operands and the verb \<open>%s\<close>, the only verb in the formats
  of this program: each \<open>%s\<close> is replaced by the next operand; a \<open>%s\<close> without an operand
  prints \<open>%!s(MISSING)\<close>, operands left over are reported after the text. Every other
  character of the format is copied.
\<close>

fun Sprintf :: "string \<Rightarrow> string list \<Rightarrow> string" where
  "Sprintf [] [] = []"
| "Sprintf [] (a # as) =
     ''%!(EXTRA '' @ Join (map (\<lambda>x. ''string='' @ x) (a # as)) '', '' @ '')''"
| "Sprintf [c] args = c # Sprintf [] args"
| "Sprintf (c # d # fs) args =
     (if c = CHR ''%'' \<and> d = CHR ''s''
      then (case args of
              [] \<Rightarrow> ''%!s(MISSING)'' @ Sprintf fs []
            | a # as \<Rightarrow> a @ Sprintf fs as)
      else c # Sprintf (d # fs) args)"

text \<open>
  \<open>strconv.Atoi\<close> on a 64-bit \<open>int\<close>, through \<open>strconv.ParseInt(s, 10, 0)\<close> and
  \<open>strconv.ParseUint\<close>, whose results it returns (its fast path for short strings gives
  the same results). Both the value and the error are results, as in Go: a syntax error
  comes with the value 0, a range error with the nearest bound. \<open>ParseUint\<close> reads the
  digits from the left and reports a range error as soon as the number read no longer
  fits 64 bits, before it looks at the characters that follow.
\<close>

datatype NumError = ErrSyntax | ErrRange

definition maxUint64 :: nat where
  "maxUint64 = 2 ^ 64 - 1"

fun ParseUint_loop :: "nat \<Rightarrow> string \<Rightarrow> nat \<times> NumError option" where
  "ParseUint_loop n [] = (n, None)"
| "ParseUint_loop n (c # cs) =
     (if \<not> (48 \<le> (of_char c :: nat) \<and> (of_char c :: nat) \<le> 57) then (0, Some ErrSyntax)
      else if n \<ge> maxUint64 div 10 + 1 then (maxUint64, Some ErrRange)
      else if n * 10 + ((of_char c :: nat) - 48) > maxUint64 then (maxUint64, Some ErrRange)
      else ParseUint_loop (n * 10 + ((of_char c :: nat) - 48)) cs)"

definition ParseUint :: "string \<Rightarrow> nat \<times> NumError option" where
  "ParseUint s = (if s = [] then (0, Some ErrSyntax) else ParseUint_loop 0 s)"

definition ParseInt :: "string \<Rightarrow> int \<times> NumError option" where
  "ParseInt s =
     (case s of
        [] \<Rightarrow> (0, Some ErrSyntax)
      | c # cs \<Rightarrow>
          (let neg = (c = CHR ''-'');
               (un, err) = ParseUint (if c = CHR ''+'' \<or> c = CHR ''-'' then cs else s)
           in if err \<noteq> None \<and> err \<noteq> Some ErrRange then (0, err)
              else if \<not> neg \<and> un \<ge> 2 ^ 63 then (2 ^ 63 - 1, Some ErrRange)
              else if neg \<and> un > 2 ^ 63 then (- (2 ^ 63), Some ErrRange)
              else (if neg then - int un else int un, None)))"

definition Atoi :: "string \<Rightarrow> goint \<times> NumError option" where
  "Atoi s = (case ParseInt s of (i64, err) \<Rightarrow> (word_of_int i64, err))"

section \<open>The store behind \<open>m.db\<close>\<close>

text \<open>
  The SQLite database is not part of the program; the program reaches it through three
  statements. It is modelled here by the one table of the schema in \<open>CreateTables\<close>
  (line 187): \<open>votes (id integer not null primary key, puppy_id integer unique,
  up_votes integer, down_votes integer)\<close>, and by what SQLite and \<open>database/sql\<close> do with
  the statements the program sends:
  \<^item> a column of integer affinity stores a text that is a decimal integer within 64
    bits (a text that \<open>ParseInt\<close> accepts) as that integer, and any other text as the
    text it is;
  \<^item> a new row gets the next row id; an insert that would repeat a \<open>puppy_id\<close> fails;
  \<^item> \<open>in (...)\<close> compares the column with each parameter, after the same conversion of
    the parameter; an empty list is accepted and matches no row;
  \<^item> the number of parameters passed must be the number of placeholders of the statement;
  \<^item> a statement on a store without the table fails when it is prepared.
  Only the two statement texts of the program are recognised. Texts that SQLite stores as
  a floating-point number are kept as text here; \<open>Scan\<close> fails on both in the same way.
\<close>

datatype sqlvalue = SqlInteger int | SqlText string

record VotesRow =
  row_id :: int
  row_puppy_id :: sqlvalue
  row_up_votes :: sqlvalue
  row_down_votes :: sqlvalue

datatype Store = NoTable | Votes "VotesRow list"

text \<open>The arguments the program binds: Go strings and Go ints.\<close>

datatype sqlarg = ArgString string | ArgInt goint

datatype stmt = InsertVote | SelectVotes nat

definition integer_affinity :: "sqlarg \<Rightarrow> sqlvalue" where
  "integer_affinity a =
     (case a of
        ArgInt v \<Rightarrow> SqlInteger (sint v)
      | ArgString s \<Rightarrow> (case ParseInt s of (v, None) \<Rightarrow> SqlInteger v | (v, Some e) \<Rightarrow> SqlText s))"

fun nonempty_placeholders :: "string \<Rightarrow> nat option" where
  "nonempty_placeholders [] = None"
| "nonempty_placeholders [c] = (if c = CHR ''?'' then Some 1 else None)"
| "nonempty_placeholders (c # d # cs) =
     (if c = CHR ''?'' \<and> d = CHR '','' then map_option Suc (nonempty_placeholders cs) else None)"

definition placeholder_list :: "string \<Rightarrow> nat option" where
  "placeholder_list s = (if s = [] then Some 0 else nonempty_placeholders s)"

definition select_prefix :: string where
  "select_prefix = ''select * from votes where puppy_id in (''"

definition parse_select :: "string \<Rightarrow> nat option" where
  "parse_select q =
     (if take (length select_prefix) q = select_prefix \<and> length select_prefix < length q
         \<and> last q = CHR '')''
      then placeholder_list (butlast (drop (length select_prefix) q))
      else None)"

definition sqlite_prepare :: "Store \<Rightarrow> string \<Rightarrow> stmt option" where
  "sqlite_prepare st q =
     (case st of
        NoTable \<Rightarrow> None
      | Votes rows \<Rightarrow>
          if q = ''insert into votes(puppy_id, up_votes, down_votes) values(?, ?, ?)''
          then Some InsertVote
          else map_option SelectVotes (parse_select q))"



definition sqlite_query :: "Store \<Rightarrow> stmt \<Rightarrow> sqlarg list \<Rightarrow> VotesRow list option" where
  "sqlite_query st s args =
     (case (st, s) of
        (Votes rows, SelectVotes k) \<Rightarrow>
          if length args = k
          then Some (filter (\<lambda>r. row_puppy_id r \<in> set (map integer_affinity args)) rows)
          else None
      | _ \<Rightarrow> None)"

text \<open>
  \<open>rows.Scan\<close> into the four \<open>int\<close> fields of a \<open>DBVote\<close> that starts as zero: the columns
  are assigned in order, and the first one that is not an integer stops the assignment
  with an error. The program drops that error (line 247) and keeps the struct as it is.
\<close>

definition scan_int :: "sqlvalue \<Rightarrow> goint option" where
  "scan_int v =
     (case v of
        SqlInteger i \<Rightarrow> Some (word_of_int i)
      | SqlText s \<Rightarrow> (case ParseInt s of (i, None) \<Rightarrow> Some (word_of_int i) | (i, Some e) \<Rightarrow> None))"

definition Scan :: "VotesRow \<Rightarrow> DBVote" where
  "Scan r =
     (let dbVote = \<lparr>id' = word_of_int (row_id r), puppy_id = 0, up_votes = 0, down_votes = 0\<rparr>
      in case scan_int (row_puppy_id r) of
           None \<Rightarrow> dbVote
         | Some p \<Rightarrow>
             (case scan_int (row_up_votes r) of
                None \<Rightarrow> dbVote\<lparr>puppy_id := p\<rparr>
              | Some u \<Rightarrow>
                  (case scan_int (row_down_votes r) of
                     None \<Rightarrow> dbVote\<lparr>puppy_id := p, up_votes := u\<rparr>
                   | Some d \<Rightarrow> dbVote\<lparr>puppy_id := p, up_votes := u, down_votes := d\<rparr>)))"

section \<open>The photo URL (lines 157-164)\<close>

text \<open>
  The receiver is the photo itself: \<open>NewImage\<close>, the one caller, calls \<open>URL\<close> on the
  photo it was passed by value.
\<close>

definition URL :: "Photo \<Rightarrow> string \<Rightarrow> string" where
  "URL p size' =
     (if size' = ''-''
      then Sprintf ''http://farm%s.static.flickr.com/%s/%s_%s.jpg''
             [Farm p, Server p, Photo.ID p, Secret p]
      else Sprintf ''http://farm%s.static.flickr.com/%s/%s_%s_%s.jpg''
             [Farm p, Server p, Photo.ID p, Secret p, size'])"

section \<open>The image registry (lines 72-154)\<close>

text \<open>
  The \<open>db\<close> field of the manager is the handle of the store described above, \<open>None\<close>
  while it is \<open>nil\<close>. The registry functions read and write only \<open>images\<close>, the slice
  of pointers.
\<close>

record ImageManager =
  images :: "ptr list"
  db :: "Store option"

definition NewImageManager :: ImageManager where
  "NewImageManager = \<lparr>images = [], db = None\<rparr>"

text \<open>\<open>NewImage\<close> allocates the image it returns.\<close>

definition NewImage :: "heap \<Rightarrow> ImageManager \<Rightarrow> Photo \<Rightarrow> heap \<times> ptr" where
  "NewImage h m photo =
     (h @ [\<lparr>Image.ID = Photo.ID photo, Title = Photo.Title photo,
             Thumbnail = URL photo SizeThumbnail, Large = URL photo SizeLarge,
             UpVotes = 0, DownVotes = 0\<rparr>],
      length h)"

definition cloneImage :: "heap \<Rightarrow> ptr \<Rightarrow> failure + (heap \<times> ptr)" where
  "cloneImage h i =
     (case deref h i of
        None \<Rightarrow> Inl NilPointer
      | Some c \<Rightarrow> Inr (h @ [c], length h))"

text \<open>The loop of \<open>Save\<close>: \<open>Inr True\<close> is its early return.\<close>

fun Save_loop :: "heap \<Rightarrow> ptr list \<Rightarrow> ptr \<Rightarrow> failure + bool" where
  "Save_loop h [] img = Inr False"
| "Save_loop h (im # ims) img =
     (case deref h im of
        None \<Rightarrow> Inl NilPointer
      | Some x \<Rightarrow>
          (case deref h img of
             None \<Rightarrow> Inl NilPointer
           | Some y \<Rightarrow>
               if Image.ID x = Image.ID y then Inr True else Save_loop h ims img))"

text \<open>
  \<open>Save\<close> returns the heap and the manager as it leaves them, and its Go result of type
  \<open>error\<close>, where \<open>None\<close> is \<open>nil\<close>.
\<close>

definition Save ::
  "heap \<Rightarrow> ImageManager \<Rightarrow> ptr \<Rightarrow> failure + (heap \<times> ImageManager \<times> string option)" where
  "Save h m img =
     (case Save_loop h (images m) img of
        Inl e \<Rightarrow> Inl e
      | Inr True \<Rightarrow> Inr (h, m, None)
      | Inr False \<Rightarrow>
          (case cloneImage h img of
             Inl e \<Rightarrow> Inl e
           | Inr (h', c) \<Rightarrow> Inr (h', m\<lparr>images := images m @ [c]\<rparr>, None)))"

text \<open>\<open>Find\<close> returns \<open>(im, true)\<close> as \<open>Some im\<close> and \<open>(nil, false)\<close> as \<open>None\<close>.\<close>

fun Find_loop :: "heap \<Rightarrow> ptr list \<Rightarrow> string \<Rightarrow> failure + ptr option" where
  "Find_loop h [] i = Inr None"
| "Find_loop h (im # ims) i =
     (case deref h im of
        None \<Rightarrow> Inl NilPointer
      | Some x \<Rightarrow> if Image.ID x = i then Inr (Some im) else Find_loop h ims i)"

definition Find :: "heap \<Rightarrow> ImageManager \<Rightarrow> string \<Rightarrow> failure + ptr option" where
  "Find h m i = Find_loop h (images m) i"

text \<open>The loop of \<open>Update\<close>, writing through each matching pointer of the registry.\<close>

fun Update_loop :: "heap \<Rightarrow> ptr list \<Rightarrow> ptr \<Rightarrow> failure + heap" where
  "Update_loop h [] img = Inr h"
| "Update_loop h (im # ims) img =
     (case deref h im of
        None \<Rightarrow> Inl NilPointer
      | Some x \<Rightarrow>
          (case deref h img of
             None \<Rightarrow> Inl NilPointer
           | Some y \<Rightarrow>
               if Image.ID x = Image.ID y
               then Update_loop
                      (h[im := x\<lparr>UpVotes := UpVotes y, DownVotes := DownVotes y\<rparr>]) ims img
               else Update_loop h ims img))"

definition Update ::
  "heap \<Rightarrow> ImageManager \<Rightarrow> ptr \<Rightarrow> bool \<Rightarrow> failure + (heap \<times> goint \<times> goint)" where
  "Update h m img upOrDown =
     (case deref h img of
        None \<Rightarrow> Inl NilPointer
      | Some g \<Rightarrow>
          (case Update_loop
                  (h[img := (if upOrDown = True
                               then g\<lparr>UpVotes := UpVotes g + 1\<rparr>
                               else g\<lparr>DownVotes := DownVotes g - 1\<rparr>)])
                  (images m) img of
             Inl e \<Rightarrow> Inl e
           | Inr h' \<Rightarrow>
               (case deref h' img of
                  None \<Rightarrow> Inl NilPointer
                | Some r \<Rightarrow> Inr (h', UpVotes r, DownVotes r))))"

definition All :: "ImageManager \<Rightarrow> ptr list" where
  "All m = images m"

section \<open>The response summary (lines 93-102)\<close>

text \<open>
  \<open>searchResponse\<close> is a pointer: \<open>None\<close> is \<open>nil\<close>. The result is the pointer the
  function returns, \<open>None\<close> for \<open>nil\<close>. Each of the four conversions assigns \<open>err\<close>
  again; the test after them reads the last one.
\<close>

definition GetPuppiesResponse ::
  "ImageManager \<Rightarrow> SearchResponse option \<Rightarrow> failure + PuppiesResponse option" where
  "GetPuppiesResponse m searchResponse =
     (case searchResponse of
        None \<Rightarrow> Inl NilPointer
      | Some sr \<Rightarrow>
          (let (page, err) = Atoi (SearchResponse.Page sr);
               (pages, err) = Atoi (SearchResponse.Pages sr);
               (perPage, err) = Atoi (SearchResponse.PerPage sr);
               (total, err) = Atoi (SearchResponse.Total sr)
           in if err \<noteq> None then Inr None
              else Inr (Some \<lparr>Page = page, Pages = pages, PerPage = perPage, Total = total,
                               Images = images m\<rparr>)))"

section \<open>Persistence (lines 196-256)\<close>



text \<open>The statement text that \<open>FindOldPuppies\<close> builds (lines 223-224).\<close>

definition FindOldPuppies_query :: "string list \<Rightarrow> string" where
  "FindOldPuppies_query ids =
     Sprintf ''select * from votes where puppy_id in (%s)''
       [Join (Split_empty_sep (Repeat ''?'' (length ids))) '','']"

definition FindOldPuppies :: "ImageManager \<Rightarrow> string list \<Rightarrow> failure + DBVote list" where
  "FindOldPuppies m ids =
     (case db m of
        None \<Rightarrow> Inl NilPointer
      | Some st \<Rightarrow>
          (case sqlite_prepare st (FindOldPuppies_query ids) of
             None \<Rightarrow> Inl Fatal
           | Some s \<Rightarrow>
               (case sqlite_query st s (map ArgString ids) of
                  None \<Rightarrow> Inl Fatal
                | Some rows \<Rightarrow> Inr (map Scan rows))))"

section \<open>Notions used to state the properties\<close>

text \<open>Every pointer of the registry points into the heap.\<close>

definition registry_ok :: "heap \<Rightarrow> ImageManager \<Rightarrow> bool" where
  "registry_ok h m = (\<forall>p \<in> set (images m). p < length h)"

text \<open>The registry holds an entry with the id \<open>i\<close>.\<close>

definition id_saved :: "heap \<Rightarrow> ImageManager \<Rightarrow> string \<Rightarrow> bool" where
  "id_saved h m i = (\<exists>p \<in> set (images m). Image.ID (h ! p) = i)"

text \<open>The ids of the registry, in its order.\<close>

definition registry_ids :: "heap \<Rightarrow> ImageManager \<Rightarrow> string list" where
  "registry_ids h m = map (\<lambda>p. Image.ID (h ! p)) (images m)"

text \<open>The image after one vote, as the first statement of \<open>Update\<close> leaves it.\<close>

definition vote :: "Image \<Rightarrow> bool \<Rightarrow> Image" where
  "vote g isUpvote =
     (if isUpvote then g\<lparr>UpVotes := UpVotes g + 1\<rparr> else g\<lparr>DownVotes := DownVotes g - 1\<rparr>)"

text \<open>\<open>N\<close> consecutive calls of \<open>Update\<close> with the same image and direction.\<close>

fun Update_n :: "nat \<Rightarrow> heap \<Rightarrow> ImageManager \<Rightarrow> ptr \<Rightarrow> bool \<Rightarrow> failure + heap" where
  "Update_n 0 h m img isUpvote = Inr h"
| "Update_n (Suc n) h m img isUpvote =
     (case Update h m img isUpvote of
        Inl e \<Rightarrow> Inl e
      | Inr (h', r) \<Rightarrow> Update_n n h' m img isUpvote)"

text \<open>
  Sequences of calls of \<open>NewImage\<close>, \<open>Save\<close> and \<open>Update\<close>. A call that panics ends the
  sequence.
\<close>

datatype operation = OpNewImage Photo | OpSave ptr | OpUpdate ptr bool

fun apply_operation ::
  "heap \<times> ImageManager \<Rightarrow> operation \<Rightarrow> failure + (heap \<times> ImageManager)" where
  "apply_operation (h, m) (OpNewImage photo) = Inr (fst (NewImage h m photo), m)"
| "apply_operation (h, m) (OpSave img) =
     (case Save h m img of Inl e \<Rightarrow> Inl e | Inr (h', m', err) \<Rightarrow> Inr (h', m'))"
| "apply_operation (h, m) (OpUpdate img isUpvote) =
     (case Update h m img isUpvote of Inl e \<Rightarrow> Inl e | Inr (h', r) \<Rightarrow> Inr (h', m))"

fun run :: "heap \<times> ImageManager \<Rightarrow> operation list \<Rightarrow> failure + (heap \<times> ImageManager)" where
  "run s [] = Inr s"
| "run s (x # xs) = (case apply_operation s x of Inl e \<Rightarrow> Inl e | Inr s' \<Rightarrow> run s' xs)"

text \<open>Up-votes between 0 and \<open>n\<close>, down-votes between \<open>-n\<close> and 0, as signed values.\<close>

definition votes_within :: "nat \<Rightarrow> Image \<Rightarrow> bool" where
  "votes_within n i =
     (0 \<le> sint (UpVotes i) \<and> sint (UpVotes i) \<le> int n \<and>
      - int n \<le> sint (DownVotes i) \<and> sint (DownVotes i) \<le> 0)"

text \<open>The inputs of the examples.\<close>

definition example_photo :: Photo where
  "example_photo =
     \<lparr>Photo.ID = ''1'', Owner = ''o'', Secret = ''s'', Server = ''v'', Farm = ''f'',
      Photo.Title = ''puppy'', IsPublic = ''1'', IsFriend = ''0'', IsFamily = ''0'',
      Thumbnail_T = [], Large_T = []\<rparr>"

definition example_image :: Image where
  "example_image =
     \<lparr>Image.ID = ''1'', Title = ''puppy'', Thumbnail = ''t.jpg'', Large = ''b.jpg'',
      UpVotes = 0, DownVotes = 0\<rparr>"

definition other_image :: Image where
  "other_image =
     \<lparr>Image.ID = ''1'', Title = ''another'', Thumbnail = ''t2.jpg'', Large = ''b2.jpg'',
      UpVotes = 5, DownVotes = 0\<rparr>"

definition another_image :: Image where
  "another_image =
     \<lparr>Image.ID = ''2'', Title = ''kitten'', Thumbnail = ''t3.jpg'', Large = ''b3.jpg'',
      UpVotes = 0, DownVotes = 0\<rparr>"

text \<open>The heap and the manager after \<open>Save\<close> of the example image, held at address 0.\<close>

definition saved_heap :: heap where
  "saved_heap = [example_image, example_image]"

definition saved_manager :: ImageManager where
  "saved_manager = \<lparr>images = [1], db = None\<rparr>"

text \<open>The same registry, and at address 0 an image that was not saved.\<close>

definition unsaved_heap :: heap where
  "unsaved_heap = [another_image, example_image]"

text \<open>Two images of the caller with the same id.\<close>

definition two_heap :: heap where
  "two_heap = [example_image, other_image]"

text \<open>The image that \<open>NewImage\<close> makes of the example photo.\<close>

definition new_image :: Image where
  "new_image =
     \<lparr>Image.ID = ''1'', Title = ''puppy'', Thumbnail = URL example_photo SizeThumbnail,
      Large = URL example_photo SizeLarge, UpVotes = 0, DownVotes = 0\<rparr>"

definition example_response :: SearchResponse where
  "example_response =
     \<lparr>SearchResponse.Page = ''abc'', Pages = ''2'', PerPage = ''10'', Total = ''20'',
      Photos = []\<rparr>"







section \<open>Properties of the photo URL\<close>

text \<open>
  C8. For every photo and every size string, \<open>URL\<close> returns
  \<open>http://farm<farm>.static.flickr.com/<server>/<id>_<secret>_<size>.jpg\<close>, and for the
  size \<open>-\<close> (medium-500) the same text without the \<open>_<size>\<close> segment. \<open>URL\<close> is a total
  function of the photo and the size: it has no failure result.
\<close>

theorem URL_form:
  "URL p size' =
     ''http://farm'' @ Farm p @ ''.static.flickr.com/'' @ Server p @ ''/'' @ Photo.ID p
       @ ''_'' @ Secret p @ (if size' = SizeMedium500 then [] else ''_'' @ size') @ ''.jpg''"
  by (simp add: URL_def SizeMedium500_def)

section \<open>Lemmas about the registry loops\<close>

lemma deref_valid: "p < length h \<Longrightarrow> deref h p = Some (h ! p)"
  by (simp add: deref_def)

lemma deref_invalid: "\<not> p < length h \<Longrightarrow> deref h p = None"
  by (simp add: deref_def)

text \<open>
  The loop of \<open>Update\<close> gives every registry entry with the id of the image the counts of
  the image, and changes nothing else.
\<close>

lemma Update_loop_result:
  assumes "\<forall>p\<in>set ps. p < length h" and "img < length h"
  shows "\<exists>h'. Update_loop h ps img = Inr h' \<and> length h' = length h \<and>
           (\<forall>q<length h. h' ! q =
              (if q \<in> set ps \<and> Image.ID (h ! q) = Image.ID (h ! img)
               then (h ! q)\<lparr>UpVotes := UpVotes (h ! img), DownVotes := DownVotes (h ! img)\<rparr>
               else h ! q))"
  using assms
proof (induction ps arbitrary: h)
  case Nil
  then show ?case by simp
next
  case (Cons im ims)
  let ?x = "h ! im" and ?y = "h ! img"
  have im: "im < length h" using Cons.prems by simp
  show ?case
  proof (cases "Image.ID ?x = Image.ID ?y")
    case False
    from Cons.IH[of h] Cons.prems obtain h' where
      h': "Update_loop h ims img = Inr h'" "length h' = length h"
      "\<forall>q<length h. h' ! q =
              (if q \<in> set ims \<and> Image.ID (h ! q) = Image.ID (h ! img)
               then (h ! q)\<lparr>UpVotes := UpVotes (h ! img), DownVotes := DownVotes (h ! img)\<rparr>
               else h ! q)" by auto
    show ?thesis using False h' im Cons.prems(2)
      by (auto simp: deref_valid)
  next
    case True
    let ?h1 = "h[im := ?x\<lparr>UpVotes := UpVotes ?y, DownVotes := DownVotes ?y\<rparr>]"
    have p1: "\<forall>p\<in>set ims. p < length ?h1" "img < length ?h1" using Cons.prems by auto
    have y1: "UpVotes (?h1 ! img) = UpVotes ?y" "DownVotes (?h1 ! img) = DownVotes ?y"
      "Image.ID (?h1 ! img) = Image.ID ?y"
      using im Cons.prems(2) True by (auto simp: nth_list_update)
    from Cons.IH[OF p1] obtain h' where
      h': "Update_loop ?h1 ims img = Inr h'" "length h' = length ?h1"
      "\<forall>q<length ?h1. h' ! q =
              (if q \<in> set ims \<and> Image.ID (?h1 ! q) = Image.ID (?h1 ! img)
               then (?h1 ! q)\<lparr>UpVotes := UpVotes (?h1 ! img), DownVotes := DownVotes (?h1 ! img)\<rparr>
               else ?h1 ! q)" by blast
    have "Update_loop h (im # ims) img = Inr h'"
      using True h'(1) im Cons.prems(2) by (simp add: deref_valid)
    moreover have "length h' = length h" using h'(2) by simp
    moreover have "\<forall>q<length h. h' ! q =
              (if q \<in> set (im # ims) \<and> Image.ID (h ! q) = Image.ID (h ! img)
               then (h ! q)\<lparr>UpVotes := UpVotes (h ! img), DownVotes := DownVotes (h ! img)\<rparr>
               else h ! q)"
    proof (intro allI impI)
      fix q assume q: "q < length h"
      show "h' ! q =
              (if q \<in> set (im # ims) \<and> Image.ID (h ! q) = Image.ID (h ! img)
               then (h ! q)\<lparr>UpVotes := UpVotes (h ! img), DownVotes := DownVotes (h ! img)\<rparr>
               else h ! q)"
        using h'(3)[rule_format, of q] q y1 True im
        by (cases "q = im") (auto simp: nth_list_update)
    qed
    ultimately show ?thesis by blast
  qed
qed

lemma Update_result:
  assumes ok: "registry_ok h m" and img: "img < length h"
  shows "\<exists>h'. Update h m img isUpvote =
                 Inr (h', UpVotes (vote (h ! img) isUpvote), DownVotes (vote (h ! img) isUpvote)) \<and>
           length h' = length h \<and>
           (\<forall>q<length h. h' ! q =
              (if q = img then vote (h ! img) isUpvote
               else if q \<in> set (images m) \<and> Image.ID (h ! q) = Image.ID (h ! img)
               then (h ! q)\<lparr>UpVotes := UpVotes (vote (h ! img) isUpvote),
                              DownVotes := DownVotes (vote (h ! img) isUpvote)\<rparr>
               else h ! q))"
proof -
  let ?g = "vote (h ! img) isUpvote"
  let ?h0 = "h[img := ?g]"
  have p: "\<forall>p\<in>set (images m). p < length ?h0" "img < length ?h0"
    using ok img by (auto simp: registry_ok_def)
  from Update_loop_result[OF p] obtain h' where
    h': "Update_loop ?h0 (images m) img = Inr h'" "length h' = length ?h0"
      "\<forall>q<length ?h0. h' ! q =
              (if q \<in> set (images m) \<and> Image.ID (?h0 ! q) = Image.ID (?h0 ! img)
               then (?h0 ! q)\<lparr>UpVotes := UpVotes (?h0 ! img), DownVotes := DownVotes (?h0 ! img)\<rparr>
               else ?h0 ! q)" by blast
  have g: "?h0 ! img = ?g" using img by simp
  have idg: "Image.ID ?g = Image.ID (h ! img)" by (simp add: vote_def)
  have at_img: "h' ! img = ?g" using h'(3)[rule_format, of img] img g by auto
  have "Update h m img isUpvote = Inr (h', UpVotes ?g, DownVotes ?g)"
    using h'(1,2) img at_img
    by (cases isUpvote) (simp_all add: Update_def deref_valid vote_def)
  moreover have "length h' = length h" using h'(2) by simp
  moreover have "\<forall>q<length h. h' ! q =
              (if q = img then ?g
               else if q \<in> set (images m) \<and> Image.ID (h ! q) = Image.ID (h ! img)
               then (h ! q)\<lparr>UpVotes := UpVotes ?g, DownVotes := DownVotes ?g\<rparr>
               else h ! q)"
  proof (intro allI impI)
    fix q assume q: "q < length h"
    show "h' ! q =
              (if q = img then ?g
               else if q \<in> set (images m) \<and> Image.ID (h ! q) = Image.ID (h ! img)
               then (h ! q)\<lparr>UpVotes := UpVotes ?g, DownVotes := DownVotes ?g\<rparr>
               else h ! q)"
    proof (cases "q = img")
      case True
      then show ?thesis using at_img by simp
    next
      case False
      then show ?thesis using h'(3)[rule_format, of q] q img idg by (simp add: g)
    qed
  qed
  ultimately show ?thesis by blast
qed

text \<open>Signed reading of a count after \<open>n\<close> steps, while the result fits the 64 bits.\<close>

lemma sint_plus_nat:
  fixes w :: goint
  assumes "sint w + int n < 2 ^ 63"
  shows "sint (w + of_nat n) = sint w + int n"
proof -
  have lo: "- (2 ^ 63) \<le> sint w + int n"
    using sint_ge[of w] by simp
  have "w + of_nat n = word_of_int (sint w + int n)"
    by simp
  then have "sint (w + of_nat n) = signed_take_bit 63 (sint w + int n)"
    by (simp only: sint_sbintrunc') simp
  also have "\<dots> = sint w + int n"
    using lo assms by (intro signed_take_bit_int_eq_self) simp_all
  finally show ?thesis .
qed

lemma sint_minus_nat:
  fixes w :: goint
  assumes "- (2 ^ 63) \<le> sint w - int n"
  shows "sint (w - of_nat n) = sint w - int n"
proof -
  have hi: "sint w - int n < 2 ^ 63"
    using sint_lt[of w] by simp
  have "w - of_nat n = word_of_int (sint w - int n)"
    by simp
  then have "sint (w - of_nat n) = signed_take_bit 63 (sint w - int n)"
    by (simp only: sint_sbintrunc') simp
  also have "\<dots> = sint w - int n"
    using hi assms by (intro signed_take_bit_int_eq_self) simp_all
  finally show ?thesis .
qed

lemma Update_n_result:
  assumes ok: "registry_ok h m" and img: "img < length h"
  shows "\<exists>hN. Update_n N h m img isUpvote = Inr hN \<and> length hN = length h \<and>
           (\<forall>q<length h. Image.ID (hN ! q) = Image.ID (h ! q)) \<and>
           UpVotes (hN ! img) = UpVotes (h ! img) + (if isUpvote then of_nat N else 0) \<and>
           DownVotes (hN ! img) = DownVotes (h ! img) - (if isUpvote then 0 else of_nat N) \<and>
           (0 < N \<longrightarrow> (\<forall>p\<in>set (images m). Image.ID (h ! p) = Image.ID (h ! img) \<longrightarrow>
               UpVotes (hN ! p) = UpVotes (hN ! img) \<and> DownVotes (hN ! p) = DownVotes (hN ! img)))"
  using assms
proof (induction N arbitrary: h)
  case 0
  then show ?case by simp
next
  case (Suc n)
  let ?g = "vote (h ! img) isUpvote"
  from Update_result[OF Suc.prems, of isUpvote] obtain h' where
    h': "Update h m img isUpvote = Inr (h', UpVotes ?g, DownVotes ?g)"
        "length h' = length h"
        "\<forall>q<length h. h' ! q =
              (if q = img then ?g
               else if q \<in> set (images m) \<and> Image.ID (h ! q) = Image.ID (h ! img)
               then (h ! q)\<lparr>UpVotes := UpVotes ?g, DownVotes := DownVotes ?g\<rparr>
               else h ! q)" by blast
  have ids: "\<forall>q<length h. Image.ID (h' ! q) = Image.ID (h ! q)"
    using h'(3) by (simp add: vote_def)
  have at_img: "h' ! img = ?g" using h'(3) Suc.prems(2) by simp
  have sync1: "\<forall>p\<in>set (images m). Image.ID (h ! p) = Image.ID (h ! img) \<longrightarrow>
               UpVotes (h' ! p) = UpVotes ?g \<and> DownVotes (h' ! p) = DownVotes ?g"
    using h'(3) Suc.prems by (auto simp: registry_ok_def)
  have ok': "registry_ok h' m" using Suc.prems(1) h'(2) by (simp add: registry_ok_def)
  have img': "img < length h'" using Suc.prems(2) h'(2) by simp
  from Suc.IH[OF ok' img'] obtain hN where
    hN: "Update_n n h' m img isUpvote = Inr hN" "length hN = length h'"
        "\<forall>q<length h'. Image.ID (hN ! q) = Image.ID (h' ! q)"
        "UpVotes (hN ! img) = UpVotes (h' ! img) + (if isUpvote then of_nat n else 0)"
        "DownVotes (hN ! img) = DownVotes (h' ! img) - (if isUpvote then 0 else of_nat n)"
        "0 < n \<longrightarrow> (\<forall>p\<in>set (images m). Image.ID (h' ! p) = Image.ID (h' ! img) \<longrightarrow>
               UpVotes (hN ! p) = UpVotes (hN ! img) \<and> DownVotes (hN ! p) = DownVotes (hN ! img))"
    by blast
  have run: "Update_n (Suc n) h m img isUpvote = Inr hN" using h'(1) hN(1) by simp
  have len: "length hN = length h" using hN(2) h'(2) by simp
  have idN: "\<forall>q<length h. Image.ID (hN ! q) = Image.ID (h ! q)"
    using hN(3) ids h'(2) by simp
  have up: "UpVotes (hN ! img) = UpVotes (h ! img) + (if isUpvote then of_nat (Suc n) else 0)"
    using hN(4) at_img by (simp add: vote_def)
  have down: "DownVotes (hN ! img) = DownVotes (h ! img) - (if isUpvote then 0 else of_nat (Suc n))"
    using hN(5) at_img by (simp add: vote_def)
  have sync: "\<forall>p\<in>set (images m). Image.ID (h ! p) = Image.ID (h ! img) \<longrightarrow>
               UpVotes (hN ! p) = UpVotes (hN ! img) \<and> DownVotes (hN ! p) = DownVotes (hN ! img)"
  proof (cases n)
    case 0
    then have "hN = h'" using hN(1) by simp
    then show ?thesis using sync1 at_img by simp
  next
    case (Suc k)
    then have "0 < n" by simp
    with hN(6) have s: "\<forall>p\<in>set (images m). Image.ID (h' ! p) = Image.ID (h' ! img) \<longrightarrow>
               UpVotes (hN ! p) = UpVotes (hN ! img) \<and> DownVotes (hN ! p) = DownVotes (hN ! img)"
      by simp
    show ?thesis
    proof (intro ballI impI)
      fix p assume p: "p \<in> set (images m)" and e: "Image.ID (h ! p) = Image.ID (h ! img)"
      have "p < length h" using p Suc.prems(1) by (simp add: registry_ok_def)
      then have "Image.ID (h' ! p) = Image.ID (h' ! img)"
        using ids e Suc.prems(2) by simp
      then show "UpVotes (hN ! p) = UpVotes (hN ! img) \<and> DownVotes (hN ! p) = DownVotes (hN ! img)"
        using s p by blast
    qed
  qed
  from run len idN up down sync show ?case by blast
qed

lemma Save_loop_result:
  assumes "\<forall>p\<in>set ps. p < length h" and "img < length h"
  shows "Save_loop h ps img = Inr (\<exists>p\<in>set ps. Image.ID (h ! p) = Image.ID (h ! img))"
  using assms by (induction ps) (auto simp: deref_valid)

lemma Find_loop_result:
  assumes "\<forall>p\<in>set ps. p < length h"
  shows "Find_loop h ps i = Inr (find (\<lambda>p. Image.ID (h ! p) = i) ps)"
  using assms by (induction ps) (auto simp: deref_valid)

lemma find_same_heap:
  assumes "\<forall>p\<in>set ps. h' ! p = h ! p"
  shows "find (\<lambda>p. Image.ID (h' ! p) = i) ps = find (\<lambda>p. Image.ID (h ! p) = i) ps"
  using assms by (induction ps) auto

lemma find_append_list:
  "find P (xs @ ys) = (case find P xs of None \<Rightarrow> find P ys | Some x \<Rightarrow> Some x)"
  by (induction xs) auto

lemma Save_fresh:
  assumes ok: "registry_ok h m" and img: "img < length h"
    and fresh: "\<not> id_saved h m (Image.ID (h ! img))"
  shows "Save h m img = Inr (h @ [h ! img], m\<lparr>images := images m @ [length h]\<rparr>, None)"
  using Save_loop_result[of "images m" h img] assms
  by (auto simp: Save_def cloneImage_def deref_valid registry_ok_def id_saved_def)

lemma Save_present:
  assumes ok: "registry_ok h m" and img: "img < length h"
    and present: "id_saved h m (Image.ID (h ! img))"
  shows "Save h m img = Inr (h, m, None)"
  using Save_loop_result[of "images m" h img] assms
  by (auto simp: Save_def registry_ok_def id_saved_def)

lemma filter_distinct_key:
  assumes "distinct (map f xs)" and "x \<in> set xs"
  shows "filter (\<lambda>p. f p = f x) xs = [x]"
  using assms
proof (induction xs)
  case Nil
  then show ?case by simp
next
  case (Cons y ys)
  show ?case
  proof (cases "y = x")
    case True
    then have "\<forall>p\<in>set ys. f p \<noteq> f x" using Cons.prems(1) by (auto simp: image_iff)
    then have "filter (\<lambda>p. f p = f x) ys = []" by (simp add: filter_empty_conv)
    then show ?thesis using True by simp
  next
    case False
    then have "x \<in> set ys" using Cons.prems(2) by simp
    moreover have "f y \<noteq> f x" using Cons.prems(1) calculation by auto
    ultimately show ?thesis using Cons by simp
  qed
qed

lemma find_distinct_key:
  assumes "distinct (map f xs)" and "x \<in> set xs"
  shows "find (\<lambda>p. f p = f x) xs = Some x"
  using assms by (induction xs) auto

section \<open>Properties of \<open>Update\<close>\<close>

text \<open>
  C1. Let the registry be well formed and \<open>img\<close> point to an image whose id the registry
  holds. Then \<open>Update\<close> returns; in the heap it leaves, the up-vote count of the image is
  one more than before if \<open>isUpvote\<close>, and otherwise its down-vote count is one less than
  before; every registry entry with that id has the new counts of the image and its other
  fields as before; entries with other ids are unchanged; and the pair returned is the
  pair of new counts. Hence \<open>N\<close> consecutive up-votes with the image leave its up-vote
  count at the count before plus \<open>N\<close>, and \<open>N\<close> consecutive down-votes leave its down-vote
  count at the count before minus \<open>N\<close>, in the arithmetic of Go's \<open>int\<close>; while the result
  fits 64 bits this is the sum and the difference of the signed values. After at least one
  vote every registry entry with the id has the counts of the image.
\<close>

theorem Update_counts:
  assumes ok: "registry_ok h m" and img: "img < length h"
    and saved: "id_saved h m (Image.ID (h ! img))"
  shows "(\<exists>h'. Update h m img isUpvote = Inr (h', UpVotes (h' ! img), DownVotes (h' ! img)) \<and>
            UpVotes (h' ! img) = (if isUpvote then UpVotes (h ! img) + 1 else UpVotes (h ! img)) \<and>
            DownVotes (h' ! img) =
              (if isUpvote then DownVotes (h ! img) else DownVotes (h ! img) - 1) \<and>
            (\<forall>p\<in>set (images m).
                h' ! p = (if Image.ID (h ! p) = Image.ID (h ! img)
                          then (h ! p)\<lparr>UpVotes := UpVotes (h' ! img),
                                        DownVotes := DownVotes (h' ! img)\<rparr>
                          else h ! p))) \<and>
         (\<exists>hN. Update_n N h m img isUpvote = Inr hN \<and>
            UpVotes (hN ! img) = UpVotes (h ! img) + (if isUpvote then of_nat N else 0) \<and>
            DownVotes (hN ! img) = DownVotes (h ! img) - (if isUpvote then 0 else of_nat N) \<and>
            (0 < N \<longrightarrow>
               (\<forall>p\<in>set (images m). Image.ID (h ! p) = Image.ID (h ! img) \<longrightarrow>
                  UpVotes (hN ! p) = UpVotes (hN ! img) \<and>
                  DownVotes (hN ! p) = DownVotes (hN ! img))) \<and>
            (isUpvote \<and> sint (UpVotes (h ! img)) + int N < 2 ^ 63 \<longrightarrow>
               sint (UpVotes (hN ! img)) = sint (UpVotes (h ! img)) + int N) \<and>
            (\<not> isUpvote \<and> - (2 ^ 63) \<le> sint (DownVotes (h ! img)) - int N \<longrightarrow>
               sint (DownVotes (hN ! img)) = sint (DownVotes (h ! img)) - int N))"
proof (rule conjI)
  let ?g = "vote (h ! img) isUpvote"
  from Update_result[OF ok img, of isUpvote] obtain h' where
    h': "Update h m img isUpvote = Inr (h', UpVotes ?g, DownVotes ?g)"
        "length h' = length h"
        "\<forall>q<length h. h' ! q =
              (if q = img then ?g
               else if q \<in> set (images m) \<and> Image.ID (h ! q) = Image.ID (h ! img)
               then (h ! q)\<lparr>UpVotes := UpVotes ?g, DownVotes := DownVotes ?g\<rparr>
               else h ! q)" by blast
  have at_img: "h' ! img = ?g" using h'(3) img by simp
  have g_eq: "?g = (h ! img)\<lparr>UpVotes := UpVotes ?g, DownVotes := DownVotes ?g\<rparr>"
    by (simp add: vote_def)
  have entries: "\<forall>p\<in>set (images m).
                h' ! p = (if Image.ID (h ! p) = Image.ID (h ! img)
                          then (h ! p)\<lparr>UpVotes := UpVotes (h' ! img),
                                        DownVotes := DownVotes (h' ! img)\<rparr>
                          else h ! p)"
  proof
    fix p assume p: "p \<in> set (images m)"
    then have pl: "p < length h" using ok by (simp add: registry_ok_def)
    show "h' ! p = (if Image.ID (h ! p) = Image.ID (h ! img)
                          then (h ! p)\<lparr>UpVotes := UpVotes (h' ! img),
                                        DownVotes := DownVotes (h' ! img)\<rparr>
                          else h ! p)"
    proof (cases "p = img")
      case True
      then show ?thesis using at_img g_eq by simp
    next
      case False
      then show ?thesis using h'(3)[rule_format, OF pl] p at_img by simp
    qed
  qed
  have "UpVotes ?g = (if isUpvote then UpVotes (h ! img) + 1 else UpVotes (h ! img))"
    and "DownVotes ?g = (if isUpvote then DownVotes (h ! img) else DownVotes (h ! img) - 1)"
    by (simp_all add: vote_def)
  then show "\<exists>h'. Update h m img isUpvote = Inr (h', UpVotes (h' ! img), DownVotes (h' ! img)) \<and>
            UpVotes (h' ! img) = (if isUpvote then UpVotes (h ! img) + 1 else UpVotes (h ! img)) \<and>
            DownVotes (h' ! img) =
              (if isUpvote then DownVotes (h ! img) else DownVotes (h ! img) - 1) \<and>
            (\<forall>p\<in>set (images m).
                h' ! p = (if Image.ID (h ! p) = Image.ID (h ! img)
                          then (h ! p)\<lparr>UpVotes := UpVotes (h' ! img),
                                        DownVotes := DownVotes (h' ! img)\<rparr>
                          else h ! p))"
    using h'(1) at_img entries by auto
next
  from Update_n_result[OF ok img, of N isUpvote] obtain hN where
    hN: "Update_n N h m img isUpvote = Inr hN"
        "UpVotes (hN ! img) = UpVotes (h ! img) + (if isUpvote then of_nat N else 0)"
        "DownVotes (hN ! img) = DownVotes (h ! img) - (if isUpvote then 0 else of_nat N)"
        "0 < N \<longrightarrow> (\<forall>p\<in>set (images m). Image.ID (h ! p) = Image.ID (h ! img) \<longrightarrow>
               UpVotes (hN ! p) = UpVotes (hN ! img) \<and> DownVotes (hN ! p) = DownVotes (hN ! img))"
    by blast
  have up: "isUpvote \<and> sint (UpVotes (h ! img)) + int N < 2 ^ 63 \<longrightarrow>
               sint (UpVotes (hN ! img)) = sint (UpVotes (h ! img)) + int N"
    using hN(2) sint_plus_nat[of "UpVotes (h ! img)" N] by simp
  have down: "\<not> isUpvote \<and> - (2 ^ 63) \<le> sint (DownVotes (h ! img)) - int N \<longrightarrow>
               sint (DownVotes (hN ! img)) = sint (DownVotes (h ! img)) - int N"
    using hN(3) sint_minus_nat[of "DownVotes (h ! img)" N] by simp
  from hN up down
  show "\<exists>hN. Update_n N h m img isUpvote = Inr hN \<and>
            UpVotes (hN ! img) = UpVotes (h ! img) + (if isUpvote then of_nat N else 0) \<and>
            DownVotes (hN ! img) = DownVotes (h ! img) - (if isUpvote then 0 else of_nat N) \<and>
            (0 < N \<longrightarrow>
               (\<forall>p\<in>set (images m). Image.ID (h ! p) = Image.ID (h ! img) \<longrightarrow>
                  UpVotes (hN ! p) = UpVotes (hN ! img) \<and>
                  DownVotes (hN ! p) = DownVotes (hN ! img))) \<and>
            (isUpvote \<and> sint (UpVotes (h ! img)) + int N < 2 ^ 63 \<longrightarrow>
               sint (UpVotes (hN ! img)) = sint (UpVotes (h ! img)) + int N) \<and>
            (\<not> isUpvote \<and> - (2 ^ 63) \<le> sint (DownVotes (h ! img)) - int N \<longrightarrow>
               sint (DownVotes (hN ! img)) = sint (DownVotes (h ! img)) - int N)"
    by blast
qed

text \<open>
  The scenario of the specification: after \<open>Save\<close> of an image with id \<open>1\<close> and no votes,
  \<open>Update\<close> of that image with an up-vote returns \<open>(1, 0)\<close>, and three up-votes leave the
  image and its registry entry at 3.
\<close>

theorem Update_counts_witness:
  "registry_ok saved_heap saved_manager \<and> 0 < length saved_heap \<and>
   id_saved saved_heap saved_manager (Image.ID (saved_heap ! 0)) \<and>
   (\<exists>h'. Update saved_heap saved_manager 0 True = Inr (h', 1, 0) \<and>
          UpVotes (h' ! 1) = 1 \<and> DownVotes (h' ! 1) = 0) \<and>
   (\<exists>hN. Update_n 3 saved_heap saved_manager 0 True = Inr hN \<and>
          UpVotes (hN ! 0) = 3 \<and> UpVotes (hN ! 1) = 3 \<and> sint (UpVotes (hN ! 1)) = 3)"
proof -
  have 1: "registry_ok saved_heap saved_manager"
    by (simp add: registry_ok_def saved_heap_def saved_manager_def)
  have 2: "0 < length saved_heap"
    by (simp add: saved_heap_def)
  have 3: "id_saved saved_heap saved_manager (Image.ID (saved_heap ! 0))"
    by (simp add: id_saved_def saved_heap_def saved_manager_def)
  show ?thesis
    using 1 2 3 Update_counts[OF 1 2 3, of True 3]
    by (auto simp: saved_heap_def saved_manager_def example_image_def)
qed

text \<open>
  C10. Let the registry be well formed and \<open>img\<close> point to an image whose id no registry
  entry has. Then \<open>Update\<close> returns the pair of counts after the vote, and the heap it
  leaves differs from the heap before only at \<open>img\<close>, which holds the image after the
  vote. \<open>Update\<close> does not assign \<open>m.images\<close>, so \<open>All\<close> lists the same pointers; every
  one of them points to the same image as before, and \<open>Find\<close> answers every id as before.
\<close>

theorem Update_absent_id:
  assumes ok: "registry_ok h m" and img: "img < length h"
    and absent: "\<not> id_saved h m (Image.ID (h ! img))"
  shows "\<exists>h'. Update h m img isUpvote =
                 Inr (h', (if isUpvote then UpVotes (h ! img) + 1 else UpVotes (h ! img)),
                          (if isUpvote then DownVotes (h ! img) else DownVotes (h ! img) - 1)) \<and>
           h' = h[img := (if isUpvote then (h ! img)\<lparr>UpVotes := UpVotes (h ! img) + 1\<rparr>
                          else (h ! img)\<lparr>DownVotes := DownVotes (h ! img) - 1\<rparr>)] \<and>
           (\<forall>p\<in>set (All m). h' ! p = h ! p) \<and>
           (\<forall>i. Find h' m i = Find h m i)"
proof -
  let ?g = "vote (h ! img) isUpvote"
  from Update_result[OF ok img, of isUpvote] obtain h' where
    h': "Update h m img isUpvote = Inr (h', UpVotes ?g, DownVotes ?g)"
        "length h' = length h"
        "\<forall>q<length h. h' ! q =
              (if q = img then ?g
               else if q \<in> set (images m) \<and> Image.ID (h ! q) = Image.ID (h ! img)
               then (h ! q)\<lparr>UpVotes := UpVotes ?g, DownVotes := DownVotes ?g\<rparr>
               else h ! q)" by blast
  have no: "\<forall>p\<in>set (images m). Image.ID (h ! p) \<noteq> Image.ID (h ! img)"
    using absent by (simp add: id_saved_def)
  have eq: "h' = h[img := ?g]"
  proof (rule nth_equalityI)
    show "length h' = length (h[img := ?g])" using h'(2) by simp
  next
    fix q assume "q < length h'"
    then have q: "q < length h" using h'(2) by simp
    show "h' ! q = h[img := ?g] ! q"
      using h'(3)[rule_format, OF q] no q by (auto simp: nth_list_update)
  qed
  have same: "\<forall>p\<in>set (images m). h' ! p = h ! p"
  proof
    fix p assume p: "p \<in> set (images m)"
    then have "img \<noteq> p" using no by auto
    then show "h' ! p = h ! p" using eq by simp
  qed
  have valid: "\<forall>p\<in>set (images m). p < length h" using ok by (simp add: registry_ok_def)
  have valid': "\<forall>p\<in>set (images m). p < length h'" using valid h'(2) by simp
  have find: "\<forall>i. Find h' m i = Find h m i"
    using Find_loop_result[OF valid] Find_loop_result[OF valid'] find_same_heap[OF same]
    by (simp add: Find_def)
  have "Update h m img isUpvote =
          Inr (h', (if isUpvote then UpVotes (h ! img) + 1 else UpVotes (h ! img)),
                   (if isUpvote then DownVotes (h ! img) else DownVotes (h ! img) - 1))"
    using h'(1) by (simp add: vote_def)
  moreover have "h' = h[img := (if isUpvote then (h ! img)\<lparr>UpVotes := UpVotes (h ! img) + 1\<rparr>
                          else (h ! img)\<lparr>DownVotes := DownVotes (h ! img) - 1\<rparr>)]"
    using eq by (simp add: vote_def)
  ultimately show ?thesis using same find by (simp add: All_def)
qed

text \<open>
  An image with id \<open>2\<close> that was never saved, beside a registry holding id \<open>1\<close>: a
  down-vote changes the image alone.
\<close>

theorem Update_absent_id_witness:
  "registry_ok unsaved_heap saved_manager \<and> 0 < length unsaved_heap \<and>
   \<not> id_saved unsaved_heap saved_manager (Image.ID (unsaved_heap ! 0)) \<and>
   (\<exists>h'. Update unsaved_heap saved_manager 0 False = Inr (h', 0, - 1) \<and>
          h' ! 1 = example_image \<and> DownVotes (h' ! 0) = - 1 \<and>
          Find h' saved_manager ''1'' = Find unsaved_heap saved_manager ''1'')"
proof -
  have 1: "registry_ok unsaved_heap saved_manager"
    by (simp add: registry_ok_def unsaved_heap_def saved_manager_def)
  have 2: "0 < length unsaved_heap"
    by (simp add: unsaved_heap_def)
  have 3: "\<not> id_saved unsaved_heap saved_manager (Image.ID (unsaved_heap ! 0))"
    by (simp add: id_saved_def unsaved_heap_def saved_manager_def example_image_def
        another_image_def)
  show ?thesis
    using 1 2 3 Update_absent_id[OF 1 2 3, of False]
    by (auto simp: unsaved_heap_def saved_manager_def example_image_def another_image_def
        All_def)
qed

section \<open>Properties of \<open>Save\<close>\<close>

text \<open>
  C5. Let the registry be well formed with pairwise distinct ids, and let \<open>a\<close> and \<open>b\<close>
  point to images with the same id. Then \<open>Save\<close> of \<open>a\<close> followed by \<open>Save\<close> of \<open>b\<close> both
  return \<open>nil\<close>, the second changes nothing, the ids of the registry are still pairwise
  distinct, and the registry has exactly one entry \<open>e\<close> with that id. That entry is the
  entry the registry had for the id, or, where it had none, a copy of the image at \<open>a\<close>:
  the image at \<open>b\<close> is not written to it.
\<close>

theorem Save_twice:
  assumes ok: "registry_ok h m" and a: "a < length h" and b: "b < length h"
    and same: "Image.ID (h ! b) = Image.ID (h ! a)"
    and uniq: "distinct (registry_ids h m)"
  shows "\<exists>h1 m1 e. Save h m a = Inr (h1, m1, None) \<and> Save h1 m1 b = Inr (h1, m1, None) \<and>
           distinct (registry_ids h1 m1) \<and>
           filter (\<lambda>p. Image.ID (h1 ! p) = Image.ID (h ! a)) (images m1) = [e] \<and>
           h1 ! e = (case find (\<lambda>p. Image.ID (h ! p) = Image.ID (h ! a)) (images m) of
                       None \<Rightarrow> h ! a
                     | Some p \<Rightarrow> h ! p)"
proof (cases "id_saved h m (Image.ID (h ! a))")
  case True
  then obtain e where e: "e \<in> set (images m)" "Image.ID (h ! e) = Image.ID (h ! a)"
    by (auto simp: id_saved_def)
  have u: "distinct (map (\<lambda>p. Image.ID (h ! p)) (images m))"
    using uniq by (simp add: registry_ids_def)
  have s1: "Save h m a = Inr (h, m, None)" using Save_present[OF ok a True] .
  have "id_saved h m (Image.ID (h ! b))" using True same by simp
  then have s2: "Save h m b = Inr (h, m, None)" using Save_present[OF ok b] by simp
  have f: "filter (\<lambda>p. Image.ID (h ! p) = Image.ID (h ! a)) (images m) = [e]"
    using filter_distinct_key[OF u e(1)] e(2) by simp
  have "find (\<lambda>p. Image.ID (h ! p) = Image.ID (h ! a)) (images m) = Some e"
    using find_distinct_key[OF u e(1)] e(2) by simp
  then show ?thesis using s1 s2 uniq f by simp
next
  case False
  let ?h1 = "h @ [h ! a]" and ?m1 = "m\<lparr>images := images m @ [length h]\<rparr>"
  have fresh: "\<forall>p\<in>set (images m). Image.ID (h ! p) \<noteq> Image.ID (h ! a)"
    using False by (simp add: id_saved_def)
  have u: "distinct (map (\<lambda>p. Image.ID (h ! p)) (images m))"
    using uniq by (simp add: registry_ids_def)
  have old: "\<forall>p\<in>set (images m). ?h1 ! p = h ! p"
    using ok by (simp add: registry_ok_def nth_append)
  have s1: "Save h m a = Inr (?h1, ?m1, None)" using Save_fresh[OF ok a False] .
  have ok1: "registry_ok ?h1 ?m1" using ok by (auto simp: registry_ok_def)
  have b1: "b < length ?h1" using b by simp
  have "Image.ID (?h1 ! length h) = Image.ID (?h1 ! b)"
    using b same by (simp add: nth_append)
  then have "id_saved ?h1 ?m1 (Image.ID (?h1 ! b))" by (auto simp: id_saved_def)
  then have s2: "Save ?h1 ?m1 b = Inr (?h1, ?m1, None)" using Save_present[OF ok1 b1] by simp
  have ids: "map (\<lambda>p. Image.ID (?h1 ! p)) (images m) = map (\<lambda>p. Image.ID (h ! p)) (images m)"
    using old by simp
  have d: "distinct (registry_ids ?h1 ?m1)"
    using u fresh by (auto simp: ids registry_ids_def)
  have "filter (\<lambda>p. Image.ID (?h1 ! p) = Image.ID (h ! a)) (images m) = []"
    using fresh old by (simp add: filter_empty_conv)
  then have f: "filter (\<lambda>p. Image.ID (?h1 ! p) = Image.ID (h ! a)) (images ?m1) = [length h]"
    by simp
  have "find (\<lambda>p. Image.ID (h ! p) = Image.ID (h ! a)) (images m) = None"
    using fresh by (simp add: find_None_iff)
  then have e: "?h1 ! length h = (case find (\<lambda>p. Image.ID (h ! p) = Image.ID (h ! a)) (images m) of
                       None \<Rightarrow> h ! a | Some p \<Rightarrow> h ! p)" by simp
  from s1 s2 d f e show ?thesis by blast
qed

text \<open>
  Two images with the id \<open>1\<close> and different counts, saved into the empty registry: the one
  entry is a copy of the first, with its 0 up-votes, not the 5 of the second.
\<close>

theorem Save_twice_witness:
  "registry_ok two_heap NewImageManager \<and> 0 < length two_heap \<and> 1 < length two_heap \<and>
   Image.ID (two_heap ! 1) = Image.ID (two_heap ! 0) \<and>
   distinct (registry_ids two_heap NewImageManager) \<and>
   (\<exists>h1 m1 e. Save two_heap NewImageManager 0 = Inr (h1, m1, None) \<and>
       Save h1 m1 1 = Inr (h1, m1, None) \<and>
       filter (\<lambda>p. Image.ID (h1 ! p) = ''1'') (images m1) = [e] \<and>
       h1 ! e = example_image \<and> UpVotes (h1 ! e) = 0)"
proof -
  have 1: "registry_ok two_heap NewImageManager"
    by (simp add: registry_ok_def NewImageManager_def)
  have 2: "0 < length two_heap" and 3: "1 < length two_heap"
    by (simp_all add: two_heap_def)
  have 4: "Image.ID (two_heap ! 1) = Image.ID (two_heap ! 0)"
    by (simp add: two_heap_def example_image_def other_image_def)
  have 5: "distinct (registry_ids two_heap NewImageManager)"
    by (simp add: registry_ids_def NewImageManager_def)
  show ?thesis
    using 1 2 3 4 5 Save_twice[OF 1 2 3 4 5]
    by (auto simp: two_heap_def NewImageManager_def example_image_def)
qed

text \<open>
  C6. Let the registry be well formed and \<open>img\<close> point to an image whose id no registry
  entry has. Then \<open>Save\<close> returns \<open>nil\<close>, and \<open>Find\<close> of the id returns a pointer \<open>e\<close>
  other than \<open>img\<close>, to an image equal to the one saved. Whatever the caller then writes
  to its own image (any value \<open>v\<close>, written without \<open>Update\<close>), \<open>Find\<close> of the id still
  returns \<open>e\<close>, \<open>e\<close> still points to the image as it was saved, and every entry of the
  registry is unchanged.
\<close>

theorem Save_copies:
  assumes ok: "registry_ok h m" and img: "img < length h"
    and fresh: "\<not> id_saved h m (Image.ID (h ! img))"
  shows "\<exists>h1 m1 e. Save h m img = Inr (h1, m1, None) \<and>
           Find h1 m1 (Image.ID (h ! img)) = Inr (Some e) \<and> e \<noteq> img \<and> h1 ! e = h ! img \<and>
           (\<forall>v. Find (h1[img := v]) m1 (Image.ID (h ! img)) = Inr (Some e) \<and>
                (h1[img := v]) ! e = h ! img \<and>
                (\<forall>p\<in>set (All m1). (h1[img := v]) ! p = h1 ! p))"
proof -
  let ?h1 = "h @ [h ! img]" and ?m1 = "m\<lparr>images := images m @ [length h]\<rparr>"
  let ?i = "Image.ID (h ! img)"
  have no: "\<forall>p\<in>set (images m). Image.ID (h ! p) \<noteq> Image.ID (h ! img)"
    using fresh by (simp add: id_saved_def)
  have s1: "Save h m img = Inr (?h1, ?m1, None)" using Save_fresh[OF ok img fresh] .
  have notin: "img \<notin> set (images ?m1)" using no img by auto
  have valid: "\<forall>p\<in>set (images ?m1). p < length ?h1" using ok by (auto simp: registry_ok_def)
  have old: "\<forall>p\<in>set (images m). ?h1 ! p = h ! p"
    using ok by (simp add: registry_ok_def nth_append)
  have none: "find (\<lambda>p. Image.ID (?h1 ! p) = ?i) (images m) = None"
    using no old by (simp add: find_None_iff)
  have fnd: "find (\<lambda>p. Image.ID (?h1 ! p) = ?i) (images ?m1) = Some (length h)"
    using none by (simp add: find_append_list)
  have f1: "Find ?h1 ?m1 ?i = Inr (Some (length h))"
    using Find_loop_result[OF valid, of ?i] fnd by (simp add: Find_def)
  have mut: "\<forall>v. Find (?h1[img := v]) ?m1 ?i = Inr (Some (length h)) \<and>
                (?h1[img := v]) ! length h = h ! img \<and>
                (\<forall>p\<in>set (All ?m1). (?h1[img := v]) ! p = ?h1 ! p)"
  proof
    fix v
    have same: "\<forall>p\<in>set (images ?m1). (?h1[img := v]) ! p = ?h1 ! p"
    proof
      fix p assume "p \<in> set (images ?m1)"
      then have "img \<noteq> p" using notin by blast
      then show "(?h1[img := v]) ! p = ?h1 ! p" by simp
    qed
    have valid': "\<forall>p\<in>set (images ?m1). p < length (?h1[img := v])" using valid by simp
    have "Find (?h1[img := v]) ?m1 ?i = Inr (Some (length h))"
      using Find_loop_result[OF valid', of ?i] find_same_heap[OF same, of ?i] fnd
      by (simp add: Find_def)
    moreover have "(?h1[img := v]) ! length h = h ! img" using img by (simp add: nth_list_update)
    ultimately show "Find (?h1[img := v]) ?m1 ?i = Inr (Some (length h)) \<and>
                (?h1[img := v]) ! length h = h ! img \<and>
                (\<forall>p\<in>set (All ?m1). (?h1[img := v]) ! p = ?h1 ! p)"
      using same by (simp add: All_def)
  qed
  have "length h \<noteq> img" using img by simp
  moreover have "?h1 ! length h = h ! img" by simp
  ultimately show ?thesis using s1 f1 mut by blast
qed

text \<open>
  The image with id \<open>1\<close> saved into the empty registry, then overwritten by the caller with
  an image of 5 up-votes: the entry found keeps its 0 up-votes.
\<close>

theorem Save_copies_witness:
  "registry_ok [example_image] NewImageManager \<and> 0 < length [example_image] \<and>
   \<not> id_saved [example_image] NewImageManager (Image.ID ([example_image] ! 0)) \<and>
   (\<exists>h1 m1 e. Save [example_image] NewImageManager 0 = Inr (h1, m1, None) \<and>
       Find h1 m1 ''1'' = Inr (Some e) \<and> e \<noteq> 0 \<and>
       Find (h1[0 := other_image]) m1 ''1'' = Inr (Some e) \<and>
       (h1[0 := other_image]) ! e = example_image)"
proof -
  have 1: "registry_ok [example_image] NewImageManager"
    by (simp add: registry_ok_def NewImageManager_def)
  have 2: "0 < length [example_image]"
    by simp
  have 3: "\<not> id_saved [example_image] NewImageManager (Image.ID ([example_image] ! 0))"
    by (simp add: id_saved_def NewImageManager_def)
  have i: "Image.ID example_image = ''1''"
    by (simp add: example_image_def)
  show ?thesis
    using 1 2 3 Save_copies[OF 1 2 3]
    by (simp add: i) blast
qed

section \<open>The sign of the counts\<close>

lemma votes_within_mono: "votes_within n i \<Longrightarrow> n \<le> k \<Longrightarrow> votes_within k i"
  by (auto simp: votes_within_def)

lemma votes_within_vote:
  assumes "votes_within n g" and "int n + 1 < 2 ^ 63"
  shows "votes_within (Suc n) (vote g isUpvote)"
proof (cases isUpvote)
  case True
  have "sint (UpVotes g + 1) = sint (UpVotes g) + 1"
    using sint_plus_nat[of "UpVotes g" 1] assms by (simp add: votes_within_def)
  then show ?thesis using True assms(1) by (simp add: vote_def votes_within_def)
next
  case False
  have "sint (DownVotes g - 1) = sint (DownVotes g) - 1"
    using sint_minus_nat[of "DownVotes g" 1] assms by (simp add: votes_within_def)
  then show ?thesis using False assms(1) by (simp add: vote_def votes_within_def)
qed

lemma apply_operation_invariant:
  assumes ok: "registry_ok h m" and vb: "\<forall>i\<in>set h. votes_within n i"
    and n: "int n + 1 < 2 ^ 63"
    and step: "apply_operation (h, m) x = Inr (h', m')"
  shows "registry_ok h' m' \<and> (\<forall>i\<in>set h'. votes_within (Suc n) i)"
proof (cases x)
  case (OpNewImage photo)
  then have "h' = h @ [\<lparr>Image.ID = Photo.ID photo, Title = Photo.Title photo,
             Thumbnail = URL photo SizeThumbnail, Large = URL photo SizeLarge,
             UpVotes = 0, DownVotes = 0\<rparr>]" and "m' = m"
    using step by (auto simp: NewImage_def)
  then show ?thesis using ok vb
    by (auto simp: registry_ok_def votes_within_def)
next
  case (OpSave img)
  show ?thesis
  proof (cases "img < length h")
    case False
    then have "Save h m img = Inl NilPointer"
      by (cases "images m") (simp_all add: Save_def cloneImage_def deref_invalid split: option.splits)
    then show ?thesis using step OpSave by simp
  next
    case True
    show ?thesis
    proof (cases "id_saved h m (Image.ID (h ! img))")
      case True
      then have "h' = h" "m' = m"
        using Save_present[OF ok \<open>img < length h\<close> True] step OpSave by simp_all
      then show ?thesis using ok vb votes_within_mono[of n _ "Suc n"] by auto
    next
      case False
      have "h' = h @ [h ! img]" "m' = m\<lparr>images := images m @ [length h]\<rparr>"
        using Save_fresh[OF ok \<open>img < length h\<close> False] step OpSave by simp_all
      moreover have "votes_within n (h ! img)" using vb \<open>img < length h\<close> by simp
      ultimately show ?thesis using ok vb votes_within_mono[of n _ "Suc n"]
        by (auto simp: registry_ok_def)
    qed
  qed
next
  case (OpUpdate img isUpvote)
  show ?thesis
  proof (cases "img < length h")
    case False
    then have "Update h m img isUpvote = Inl NilPointer"
      by (simp add: Update_def deref_invalid)
    then show ?thesis using step OpUpdate by simp
  next
    case True
    let ?g = "vote (h ! img) isUpvote"
    from Update_result[OF ok True, of isUpvote] obtain h2 where
      h2: "Update h m img isUpvote = Inr (h2, UpVotes ?g, DownVotes ?g)"
        "length h2 = length h"
        "\<forall>q<length h. h2 ! q =
              (if q = img then ?g
               else if q \<in> set (images m) \<and> Image.ID (h ! q) = Image.ID (h ! img)
               then (h ! q)\<lparr>UpVotes := UpVotes ?g, DownVotes := DownVotes ?g\<rparr>
               else h ! q)" by blast
    have eq: "h' = h2" "m' = m" using h2(1) step OpUpdate by simp_all
    have g: "votes_within (Suc n) ?g"
      using votes_within_vote[OF _ n] vb True by simp
    have "\<forall>i\<in>set h2. votes_within (Suc n) i"
    proof
      fix i assume "i \<in> set h2"
      then obtain q where q: "q < length h" "i = h2 ! q"
        using h2(2) by (auto simp: in_set_conv_nth)
      have old: "votes_within (Suc n) (h ! q)"
        using vb q(1) votes_within_mono[of n "h ! q" "Suc n"] by simp
      show "votes_within (Suc n) i"
        using h2(3)[rule_format, OF q(1)] q(2) g old by (auto simp: votes_within_def)
    qed
    moreover have "registry_ok h2 m" using ok h2(2) by (simp add: registry_ok_def)
    ultimately show ?thesis using eq by simp
  qed
qed

lemma run_invariant:
  assumes "registry_ok h m" and "\<forall>i\<in>set h. votes_within n i"
    and "int n + int (length xs) < 2 ^ 63"
    and "run (h, m) xs = Inr (h', m')"
  shows "registry_ok h' m' \<and> (\<forall>i\<in>set h'. votes_within (n + length xs) i)"
  using assms
proof (induction xs arbitrary: h m n)
  case Nil
  then show ?case by simp
next
  case (Cons x xs)
  from Cons.prems(4) obtain h1 m1 where
    s: "apply_operation (h, m) x = Inr (h1, m1)" and r: "run (h1, m1) xs = Inr (h', m')"
    by (auto split: sum.splits)
  have n: "int n + 1 < 2 ^ 63" using Cons.prems(3) by simp
  from apply_operation_invariant[OF Cons.prems(1,2) n s]
  have i1: "registry_ok h1 m1" "\<forall>i\<in>set h1. votes_within (Suc n) i" by simp_all
  have "int (Suc n) + int (length xs) < 2 ^ 63" using Cons.prems(3) by simp
  from Cons.IH[OF i1 this r] show ?case by simp
qed

text \<open>
  C4, as the code has it. In every state that a sequence of fewer than \<open>2 ^ 63\<close> calls of
  \<open>NewImage\<close>, \<open>Save\<close> and \<open>Update\<close> reaches from the empty registry, every registry entry
  has an up-vote count that is not negative and a down-vote count that is not positive:
  the up-votes lie between 0 and the number of calls, the down-votes between minus that
  number and 0.
\<close>

theorem votes_signs:
  assumes run: "run ([], NewImageManager) ops = Inr (h, m)"
    and len: "length ops < 2 ^ 63"
  shows "registry_ok h m \<and>
         (\<forall>p\<in>set (images m).
            0 \<le> sint (UpVotes (h ! p)) \<and> sint (UpVotes (h ! p)) \<le> int (length ops) \<and>
            - int (length ops) \<le> sint (DownVotes (h ! p)) \<and> sint (DownVotes (h ! p)) \<le> 0)"
proof -
  have ok0: "registry_ok [] NewImageManager"
    by (simp add: registry_ok_def NewImageManager_def)
  have vb0: "\<forall>i\<in>set ([] :: heap). votes_within 0 i" by simp
  have "int (length ops) < 2 ^ 63"
    using len by (metis of_nat_less_iff of_nat_numeral of_nat_power)
  then have b: "int 0 + int (length ops) < 2 ^ 63" by simp
  from run_invariant[OF ok0 vb0 b run]
  have inv: "registry_ok h m" "\<forall>i\<in>set h. votes_within (length ops) i" by simp_all
  have "\<forall>p\<in>set (images m). votes_within (length ops) (h ! p)"
    using inv by (simp add: registry_ok_def)
  then show ?thesis using inv(1) by (simp add: votes_within_def)
qed

text \<open>
  An image made, saved, and voted up and then down through the pointer of the registry:
  one up-vote, and a down-vote count of \<open>-1\<close>.
\<close>

theorem votes_signs_witness:
  "run ([], NewImageManager) [OpNewImage example_photo, OpSave 0, OpUpdate 1 True, OpUpdate 1 False]
     = Inr ([new_image, new_image\<lparr>UpVotes := 1, DownVotes := - 1\<rparr>], \<lparr>images = [1], db = None\<rparr>) \<and>
   length [OpNewImage example_photo, OpSave 0, OpUpdate 1 True, OpUpdate 1 False] < 2 ^ 63 \<and>
   0 \<le> sint (UpVotes (new_image\<lparr>UpVotes := 1, DownVotes := - 1\<rparr>)) \<and>
   sint (DownVotes (new_image\<lparr>UpVotes := 1, DownVotes := - 1\<rparr>)) \<le> 0"
proof -
  have 1: "run ([], NewImageManager)
             [OpNewImage example_photo, OpSave 0, OpUpdate 1 True, OpUpdate 1 False]
           = Inr ([new_image, new_image\<lparr>UpVotes := 1, DownVotes := - 1\<rparr>],
                  \<lparr>images = [1], db = None\<rparr>)"
    by (simp add: NewImageManager_def NewImage_def Save_def cloneImage_def Update_def deref_def
        new_image_def example_photo_def)
  have 2: "length [OpNewImage example_photo, OpSave 0, OpUpdate 1 True, OpUpdate 1 False]
             < 2 ^ 63"
    by simp
  show ?thesis
    using 1 2 votes_signs[OF 1 2] by simp
qed

text \<open>
  The claim as stated fails: one down-vote on a saved image leaves the down-vote count
  of the registry entry at \<open>-1\<close>.
\<close>

theorem votes_nonnegative_counterexample:
  "run ([], NewImageManager) [OpNewImage example_photo, OpSave 0, OpUpdate 0 False]
     = Inr ([new_image\<lparr>DownVotes := - 1\<rparr>, new_image\<lparr>DownVotes := - 1\<rparr>],
            \<lparr>images = [1], db = None\<rparr>) \<and>
   sint (DownVotes ([new_image\<lparr>DownVotes := - 1\<rparr>, new_image\<lparr>DownVotes := - 1\<rparr>] ! 1)) = - 1"
  by (simp add: NewImageManager_def NewImage_def Save_def cloneImage_def Update_def deref_def
      new_image_def example_photo_def)

section \<open>Properties of the response summary\<close>

lemma Atoi_syntax_value: "snd (Atoi s) = Some ErrSyntax \<Longrightarrow> fst (Atoi s) = 0"
  by (auto simp: Atoi_def ParseInt_def Let_def split: list.splits prod.splits if_splits)

lemma Atoi_range_value:
  "snd (Atoi s) = Some ErrRange \<Longrightarrow>
     fst (Atoi s) = word_of_int (2 ^ 63 - 1) \<or> fst (Atoi s) = word_of_int (- (2 ^ 63))"
  by (auto simp: Atoi_def ParseInt_def Let_def split: list.splits prod.splits if_splits)

lemma GetPuppiesResponse_unfold:
  "GetPuppiesResponse m (Some sr) =
     (if snd (Atoi (SearchResponse.Total sr)) \<noteq> None then Inr None
      else Inr (Some \<lparr>Page = fst (Atoi (SearchResponse.Page sr)),
                       Pages = fst (Atoi (SearchResponse.Pages sr)),
                       PerPage = fst (Atoi (SearchResponse.PerPage sr)),
                       Total = fst (Atoi (SearchResponse.Total sr)),
                       Images = images m\<rparr>))"
  by (simp add: GetPuppiesResponse_def split: prod.splits)

text \<open>
  C2. The claim is that a response with a field that does not convert gives no result.
  The code gives a result for a response whose \<open>page\<close> is not a number: the summary with
  page 0.
\<close>

theorem GetPuppiesResponse_unchecked_page:
  "GetPuppiesResponse m
     (Some \<lparr>SearchResponse.Page = ''one'', Pages = ''3'', PerPage = ''10'', Total = ''25'',
            Photos = []\<rparr>)
   = Inr (Some \<lparr>Page = 0, Pages = 3, PerPage = 10, Total = 25, Images = images m\<rparr>)"
  by (simp add: GetPuppiesResponse_def Atoi_def ParseInt_def ParseUint_def maxUint64_def)

text \<open>
  C9, as the code has it. \<open>GetPuppiesResponse\<close> returns \<open>nil\<close> exactly when the conversion
  of \<open>Total\<close> fails. When it succeeds the result is the summary of the four values that
  \<open>Atoi\<close> returned and of the image list, whether or not the other three conversions
  failed. The value \<open>Atoi\<close> returns with a syntax error is 0; the value it returns with a
  range error is the largest or the smallest \<open>int\<close>.
\<close>

theorem GetPuppiesResponse_total_decides:
  "GetPuppiesResponse m (Some sr) =
     (if snd (Atoi (SearchResponse.Total sr)) \<noteq> None then Inr None
      else Inr (Some \<lparr>Page = fst (Atoi (SearchResponse.Page sr)),
                       Pages = fst (Atoi (SearchResponse.Pages sr)),
                       PerPage = fst (Atoi (SearchResponse.PerPage sr)),
                       Total = fst (Atoi (SearchResponse.Total sr)),
                       Images = images m\<rparr>)) \<and>
   (snd (Atoi s) = Some ErrSyntax \<longrightarrow> fst (Atoi s) = 0) \<and>
   (snd (Atoi s) = Some ErrRange \<longrightarrow>
      fst (Atoi s) = word_of_int (2 ^ 63 - 1) \<or> fst (Atoi s) = word_of_int (- (2 ^ 63)))"
  using GetPuppiesResponse_unfold[of m sr] Atoi_syntax_value[of s] Atoi_range_value[of s]
  by blast

text \<open>
  A response whose \<open>page\<close> is \<open>abc\<close>: a syntax error, and page 0 in the summary. A field
  of twenty nines: a range error, and the largest \<open>int\<close>.
\<close>

theorem GetPuppiesResponse_total_decides_witness:
  "snd (Atoi ''abc'') = Some ErrSyntax \<and> fst (Atoi ''abc'') = 0 \<and>
   snd (Atoi ''99999999999999999999'') = Some ErrRange \<and>
   fst (Atoi ''99999999999999999999'') = 9223372036854775807 \<and>
   GetPuppiesResponse NewImageManager (Some example_response)
     = Inr (Some \<lparr>Page = 0, Pages = 2, PerPage = 10, Total = 20, Images = []\<rparr>)"
proof -
  have 1: "Atoi ''abc'' = (0, Some ErrSyntax)"
    by (simp add: Atoi_def ParseInt_def ParseUint_def maxUint64_def)
  have 2: "Atoi ''99999999999999999999'' = (9223372036854775807, Some ErrRange)"
    by (simp add: Atoi_def ParseInt_def ParseUint_def maxUint64_def)
  have 3: "Atoi ''2'' = (2, None)" "Atoi ''10'' = (10, None)" "Atoi ''20'' = (20, None)"
    by (simp_all add: Atoi_def ParseInt_def ParseUint_def maxUint64_def)
  show ?thesis
    using GetPuppiesResponse_total_decides[of NewImageManager example_response "''abc''"]
      GetPuppiesResponse_total_decides[of NewImageManager example_response
        "''99999999999999999999''"]
    by (simp add: 1 2 3 example_response_def NewImageManager_def)
qed

text \<open>
  The claim as stated fails: with a \<open>total\<close> that converts, a \<open>page\<close> of twenty nines
  and a \<open>perpage\<close> of twenty nines and a letter both fail to convert, and the summary
  holds the largest \<open>int\<close> for each of them, not 0.
\<close>

theorem failed_field_zero_counterexample:
  "snd (Atoi ''99999999999999999999'') = Some ErrRange \<and>
   snd (Atoi ''99999999999999999999x'') = Some ErrRange \<and>
   GetPuppiesResponse NewImageManager
     (Some \<lparr>SearchResponse.Page = ''99999999999999999999'', Pages = ''2'',
            PerPage = ''99999999999999999999x'', Total = ''20'', Photos = []\<rparr>)
   = Inr (Some \<lparr>Page = 9223372036854775807, Pages = 2, PerPage = 9223372036854775807,
                 Total = 20, Images = []\<rparr>)"
  by (simp add: GetPuppiesResponse_def Atoi_def ParseInt_def ParseUint_def maxUint64_def
      NewImageManager_def)

section \<open>Properties of persistence\<close>

lemma concat_replicate_single: "concat (replicate n [c]) = replicate n c"
  by (induction n) simp_all

lemma FindOldPuppies_query_form:
  "FindOldPuppies_query ids = select_prefix @ Join (replicate (length ids) ''?'') '','' @ '')''"
  by (simp add: FindOldPuppies_query_def Repeat_def Split_empty_sep_def select_prefix_def
      concat_replicate_single)

lemma nonempty_placeholders_Join:
  "nonempty_placeholders (Join (replicate (Suc n) ''?'') '','') = Some (Suc n)"
  by (induction n) simp_all

lemma placeholder_list_Join: "placeholder_list (Join (replicate n ''?'') '','') = Some n"
proof (cases n)
  case 0
  then show ?thesis by (simp add: placeholder_list_def)
next
  case (Suc k)
  have "Join (replicate (Suc k) ''?'') '','' \<noteq> []"
    by (cases k) simp_all
  then show ?thesis
    using Suc nonempty_placeholders_Join[of k] by (simp add: placeholder_list_def)
qed

lemma parse_select_query: "parse_select (FindOldPuppies_query ids) = Some (length ids)"
  by (simp add: parse_select_def FindOldPuppies_query_form placeholder_list_Join butlast_append)

lemma prepare_query:
  "sqlite_prepare (Votes rows) (FindOldPuppies_query ids) = Some (SelectVotes (length ids))"
proof -
  have "FindOldPuppies_query ids
          \<noteq> ''insert into votes(puppy_id, up_votes, down_votes) values(?, ?, ?)''"
    by (simp add: FindOldPuppies_query_form select_prefix_def)
  then show ?thesis by (simp add: sqlite_prepare_def parse_select_query)
qed

text \<open>
  C3, as the code has it. \<open>FindOldPuppies\<close> has no case for the empty sequence: the
  statement it builds for it is \<open>select * from votes where puppy_id in ()\<close>, and it
  prepares and runs that statement. On a store that has the table the statement matches no
  row and the call returns zero rows; on a store without the table the statement fails
  and the process ends, and on a \<open>nil\<close> handle the call panics.
\<close>

theorem FindOldPuppies_empty:
  "FindOldPuppies_query [] = ''select * from votes where puppy_id in ()'' \<and>
   FindOldPuppies m [] =
     (case db m of
        None \<Rightarrow> Inl NilPointer
      | Some NoTable \<Rightarrow> Inl Fatal
      | Some (Votes rows) \<Rightarrow> Inr [])"
proof
  show "FindOldPuppies_query [] = ''select * from votes where puppy_id in ()''"
    by (simp add: FindOldPuppies_query_def Repeat_def Split_empty_sep_def)
next
  show "FindOldPuppies m [] =
     (case db m of
        None \<Rightarrow> Inl NilPointer
      | Some NoTable \<Rightarrow> Inl Fatal
      | Some (Votes rows) \<Rightarrow> Inr [])"
  proof (cases "db m")
    case None
    then show ?thesis by (simp add: FindOldPuppies_def)
  next
    case (Some st)
    show ?thesis
    proof (cases st)
      case NoTable
      then show ?thesis using Some by (simp add: FindOldPuppies_def sqlite_prepare_def)
    next
      case (Votes rows)
      then show ?thesis
        using Some prepare_query[of rows "[]"]
        by (simp add: FindOldPuppies_def sqlite_query_def)
    qed
  qed
qed

text \<open>
  The claim as stated fails: on an open store in which the table was not created, the
  call with no ids does not return zero rows. It prepares the statement, which fails, and
  the process ends.
\<close>

theorem FindOldPuppies_empty_counterexample:
  "sqlite_prepare NoTable (FindOldPuppies_query []) = None \<and>
   FindOldPuppies \<lparr>images = [], db = Some NoTable\<rparr> [] = Inl Fatal"
  by (simp add: FindOldPuppies_def sqlite_prepare_def)









end
